theory Spec2Isabelle
  imports Main "HOL-Library.List_Lexorder" "HOL-Library.Char_ord"
begin

section \<open>Strings\<close>

text \<open>
  A Python \<open>str\<close> is modelled as a \<open>string\<close>; a \<open>char\<close> stands for a code point
  below 256.  The functions of this section are the \<open>str\<close> methods that
  \<open>scripts/build_link_mapping.py\<close> calls, with the receiver as first argument.
\<close>

definition startswith :: "string \<Rightarrow> string \<Rightarrow> bool" where
  "startswith s p = (take (length p) s = p)"

definition endswith :: "string \<Rightarrow> string \<Rightarrow> bool" where
  "endswith s p = (length p \<le> length s \<and> drop (length s - length p) s = p)"

text \<open>
  \<open>split_first s sep\<close> cuts \<open>s\<close> at the leftmost occurrence of \<open>sep\<close> (where
  \<open>s.find(sep)\<close> points) and returns what stands before and after it.
\<close>

fun split_first :: "string \<Rightarrow> string \<Rightarrow> (string \<times> string) option" where
  "split_first [] sep = (if sep = [] then Some ([], []) else None)"
| "split_first (c # cs) sep =
     (if startswith (c # cs) sep then Some ([], drop (length sep) (c # cs))
      else map_option (\<lambda>(a, b). (c # a, b)) (split_first cs sep))"

lemma split_first_shorter:
  "split_first s sep = Some (a, b) \<Longrightarrow> sep \<noteq> [] \<Longrightarrow> length b < length s"
proof (induction s arbitrary: a)
  case Nil
  then show ?case by simp
next
  case (Cons c cs)
  show ?case
  proof (cases "startswith (c # cs) sep")
    case True
    with Cons.prems show ?thesis by auto
  next
    case False
    with Cons.prems obtain a' where "split_first cs sep = Some (a', b)"
      by (auto split: prod.splits)
    with Cons.IH Cons.prems(2) show ?thesis by fastforce
  qed
qed

text \<open>
  \<open>s.split(sep, maxsplit)\<close>; \<open>None\<close> is the default, no limit.  Every call of the
  script passes a non-empty literal separator (Python raises on an empty one).
\<close>

function py_split :: "string \<Rightarrow> string \<Rightarrow> nat option \<Rightarrow> string list" where
  "py_split s sep maxsplit =
     (if maxsplit = Some 0 \<or> sep = [] then [s]
      else (case split_first s sep of
              None \<Rightarrow> [s]
            | Some (a, b) \<Rightarrow> a # py_split b sep (map_option (\<lambda>n. n - 1) maxsplit)))"
  by pat_completeness auto
termination
  by (relation "measure (\<lambda>(s, sep, m). length s)") (auto dest: split_first_shorter)

declare py_split.simps [simp del]

text \<open>\<open>str.isspace\<close> on the code points below 256.\<close>

definition isspace :: "char \<Rightarrow> bool" where
  "isspace c = ((of_char c :: nat) \<in> {9, 10, 11, 12, 13, 28, 29, 30, 31, 32, 133, 160})"

text \<open>\<open>s.strip()\<close> and \<open>s.strip(chars)\<close>.\<close>

definition strip_ws :: "string \<Rightarrow> string" where
  "strip_ws s = rev (dropWhile isspace (rev (dropWhile isspace s)))"

definition strip_chars :: "string \<Rightarrow> string \<Rightarrow> string" where
  "strip_chars s chars =
     rev (dropWhile (\<lambda>c. c \<in> set chars) (rev (dropWhile (\<lambda>c. c \<in> set chars) s)))"

text \<open>\<open>s.replace(old, new)\<close>, for a non-empty \<open>old\<close>.\<close>

function py_replace :: "string \<Rightarrow> string \<Rightarrow> string \<Rightarrow> string" where
  "py_replace s old new =
     (if old = [] \<or> s = [] then s
      else if startswith s old then new @ py_replace (drop (length old) s) old new
      else hd s # py_replace (tl s) old new)"
  by pat_completeness auto
termination
  by (relation "measure (\<lambda>(s, old, new). length s)") auto

declare py_replace.simps [simp del]

text \<open>\<open>os.path.basename\<close> (POSIX): what follows the last slash.\<close>

definition basename :: "string \<Rightarrow> string" where
  "basename p = rev (takeWhile (\<lambda>c. c \<noteq> CHR ''/'') (rev p))"

section \<open>Dictionaries\<close>

text \<open>
  A \<open>dict\<close> is an association list with distinct keys, in insertion order.
  \<open>dict_set\<close> is \<open>d[k] = v\<close>: an existing key keeps its place.
\<close>

type_synonym ('k, 'v) dict = "('k \<times> 'v) list"

definition dict_get :: "('k, 'v) dict \<Rightarrow> 'k \<Rightarrow> 'v option" where
  "dict_get d k = map_of d k"

fun dict_set :: "('k, 'v) dict \<Rightarrow> 'k \<Rightarrow> 'v \<Rightarrow> ('k, 'v) dict" where
  "dict_set [] k v = [(k, v)]"
| "dict_set ((k', v') # d) k v =
     (if k' = k then (k, v) # d else (k', v') # dict_set d k v)"

definition dict_keys :: "('k, 'v) dict \<Rightarrow> 'k list" where
  "dict_keys d = map fst d"

definition dict_values :: "('k, 'v) dict \<Rightarrow> 'v list" where
  "dict_values d = map snd d"

text \<open>\<open>list(dict.fromkeys(xs))\<close>: the keys of the dictionary built from \<open>xs\<close>.\<close>

definition list_fromkeys :: "'a list \<Rightarrow> 'a list" where
  "list_fromkeys xs = dict_keys (fold (\<lambda>x d. dict_set d x ()) xs [])"

section \<open>Front-matter\<close>

definition dquote :: char where
  "dquote = CHR 0x22"

definition squote :: char where
  "squote = CHR 0x27"

definition newline :: char where
  "newline = CHR 0x0A"

text \<open>The body of the loop over the lines of the front-matter.\<close>

definition parse_line :: "(string, string) dict \<Rightarrow> string \<Rightarrow> (string, string) dict" where
  "parse_line frontmatter line =
     (if CHR '':'' \<in> set line then
        (case py_split line '':'' (Some 1) of
           [key, val] \<Rightarrow>
             dict_set frontmatter (strip_ws key)
               (strip_chars (strip_chars (strip_ws val) [dquote]) [squote])
         | _ \<Rightarrow> frontmatter)
      else frontmatter)"

definition extract_yaml_frontmatter :: "string \<Rightarrow> (string, string) dict" where
  "extract_yaml_frontmatter content =
     (if startswith content ''---'' then
        (let parts = py_split content ''---'' (Some 2) in
         if length parts \<ge> 3 then
           (let yaml_content = strip_ws (parts ! 1) in
            fold (\<lambda>line frontmatter. parse_line frontmatter line)
              (py_split yaml_content [newline] None) [])
         else [])
      else [])"

text \<open>\<open>frontmatter.get("title", "")\<close>.\<close>

definition get_title :: "string \<Rightarrow> string" where
  "get_title content =
     (case dict_get (extract_yaml_frontmatter content) ''title'' of
        None \<Rightarrow> [] | Some t \<Rightarrow> t)"

section \<open>Link mentions\<close>

text \<open>
  The pattern of \<open>extract_links\<close> is
  \<^verbatim>\<open>\[([^\]]+)\]\(\.?/?([^\)]+\.md)\)\<close>.
  \<open>match_link s\<close> is \<open>re.match\<close> of it at the head of \<open>s\<close>: the two groups and
  what follows the match.  The backtracking matcher has one way through each part:
  \<^item> group 1, \<^verbatim>\<open>[^\]]+\<close>, is greedy and must be followed by \<^verbatim>\<open>]\<close>, which it cannot
    contain: it is the whole non-empty run up to the next \<^verbatim>\<open>]\<close>;
  \<^item> nothing between \<^verbatim>\<open>(\<close> and the closing \<^verbatim>\<open>)\<close> of the pattern can be a \<^verbatim>\<open>)\<close>,
    so the pattern closes at the first \<^verbatim>\<open>)\<close> of the text;
  \<^item> \<^verbatim>\<open>\.?\<close> and \<^verbatim>\<open>/?\<close> are greedy: each first takes its character, and gives it
    back only when the rest fails (\<open>path_group\<close> lists the candidates for group 2
    in that order);
  \<^item> group 2, \<^verbatim>\<open>[^\)]+\.md\<close>, must end where the \<^verbatim>\<open>)\<close> stands: a candidate fits
    when it ends with \<^verbatim>\<open>.md\<close> after at least one more character.
  A negated class also matches a newline.
\<close>

definition path_group :: "string \<Rightarrow> string option" where
  "path_group p =
     find (\<lambda>c. length c \<ge> 4 \<and> endswith c ''.md'')
       ((if startswith p ''./'' then [drop 2 p] else []) @
        (if startswith p ''.'' then [drop 1 p] else []) @
        (if startswith p ''/'' then [drop 1 p] else []) @
        [p])"

definition match_link :: "string \<Rightarrow> (string \<times> string \<times> string) option" where
  "match_link s =
     (case s of
        [] \<Rightarrow> None
      | c # r \<Rightarrow>
          if c \<noteq> CHR ''['' then None
          else
            (let link_text = takeWhile (\<lambda>x. x \<noteq> CHR '']'') r;
                 r1 = dropWhile (\<lambda>x. x \<noteq> CHR '']'') r
             in if link_text = [] then None
                else
                  (case r1 of
                     a # b # r2 \<Rightarrow>
                       if a = CHR '']'' \<and> b = CHR ''('' then
                         (let p = takeWhile (\<lambda>x. x \<noteq> CHR '')'') r2;
                              r3 = dropWhile (\<lambda>x. x \<noteq> CHR '')'') r2
                          in case r3 of
                               [] \<Rightarrow> None
                             | _ # r4 \<Rightarrow>
                                 (case path_group p of
                                    None \<Rightarrow> None
                                  | Some file_path \<Rightarrow> Some (link_text, file_path, r4)))
                       else None
                   | _ \<Rightarrow> None)))"

lemma match_link_shorter:
  "match_link s = Some (t, p, r) \<Longrightarrow> length r < length s"
proof -
  assume m: "match_link s = Some (t, p, r)"
  then obtain c r0 where s: "s = c # r0"
    by (cases s) (auto simp: match_link_def)
  let ?r1 = "dropWhile (\<lambda>x. x \<noteq> CHR '']'') r0"
  from m s obtain a b r2 where r1: "?r1 = a # b # r2"
    by (auto simp: match_link_def Let_def split: if_splits list.splits)
  let ?r3 = "dropWhile (\<lambda>x. x \<noteq> CHR '')'') r2"
  from m s r1 obtain x where r3: "?r3 = x # r"
    by (auto simp: match_link_def Let_def split: if_splits list.splits option.splits)
  have "length ?r3 \<le> length r2"
    by (rule length_dropWhile_le)
  moreover have "length ?r1 \<le> length r0"
    by (rule length_dropWhile_le)
  ultimately show ?thesis
    using s r1 r3 by simp
qed

text \<open>
  \<open>re.finditer\<close>: the matches from left to right, each search resuming where the
  last match ended, or one character further on when there is no match.
\<close>

function finditer :: "string \<Rightarrow> (string \<times> string) list" where
  "finditer s =
     (if s = [] then []
      else (case match_link s of
              Some (link_text, file_path, r) \<Rightarrow> (link_text, file_path) # finditer r
            | None \<Rightarrow> finditer (tl s)))"
  by pat_completeness auto
termination
  by (relation "measure length") (auto dest: match_link_shorter)

declare finditer.simps [simp del]

definition extract_links :: "string \<Rightarrow> (string \<times> string) list" where
  "extract_links content =
     map (\<lambda>(link_text, file_path). (link_text, py_replace (basename file_path) ''./'' []))
       (finditer content)"

section \<open>The scan\<close>

text \<open>
  The note directory: \<open>None\<close> when \<open>SRC_DIR\<close> does not exist, else the files
  that \<open>glob("*.md")\<close> lists, in its order, each with the outcome of reading it:
  \<open>Inl e\<close> when \<open>open\<close> or \<open>read\<close> raises \<open>e\<close>, \<open>Inr content\<close> otherwise.
\<close>

type_synonym note_dir = "(string \<times> (string + string)) list option"

text \<open>
  The four accumulators of \<open>scan_notes\<close>, and the lines it prints for the files
  it could not read (file and error).  \<open>'f\<close> is a \<open>set\<close> while scanning and a
  sorted \<open>list\<close> in the result.
\<close>

record 'f link_graph =
  existing_notes :: "(string, string) dict"
  all_links :: "(string, string list) dict"
  broken_links :: "(string, string list) dict"
  files_linking_to :: "(string, 'f) dict"
  printed :: "(string \<times> string) list"

text \<open>\<open>d[k]\<close> on a \<open>defaultdict(list)\<close> and a \<open>defaultdict(set)\<close>.\<close>

definition get_list :: "('k, 'v list) dict \<Rightarrow> 'k \<Rightarrow> 'v list" where
  "get_list d k = (case dict_get d k of None \<Rightarrow> [] | Some v \<Rightarrow> v)"

definition get_set :: "('k, 'v set) dict \<Rightarrow> 'k \<Rightarrow> 'v set" where
  "get_set d k = (case dict_get d k of None \<Rightarrow> {} | Some v \<Rightarrow> v)"

text \<open>The body of the loop over the links of one file.\<close>

definition add_link ::
  "string set \<Rightarrow> string \<Rightarrow> string \<times> string \<Rightarrow> string set link_graph \<Rightarrow> string set link_graph" where
  "add_link existing_files filename l g =
     (case l of (link_text, linked_filename) \<Rightarrow>
        (let g1 = g\<lparr>all_links :=
                      dict_set (all_links g) linked_filename
                        (get_list (all_links g) linked_filename @ [link_text])\<rparr>;
             g2 = g1\<lparr>files_linking_to :=
                      dict_set (files_linking_to g1) linked_filename
                        (insert filename (get_set (files_linking_to g1) linked_filename))\<rparr>
         in if linked_filename \<notin> existing_files then
              g2\<lparr>broken_links :=
                    dict_set (broken_links g2) linked_filename
                      (get_list (broken_links g2) linked_filename @ [link_text])\<rparr>
            else g2))"

text \<open>The body of the loop over the files.\<close>

definition scan_file ::
  "string set \<Rightarrow> string \<times> (string + string) \<Rightarrow> string set link_graph \<Rightarrow> string set link_graph" where
  "scan_file existing_files f g =
     (case f of (filename, r) \<Rightarrow>
        (case r of
           Inl e \<Rightarrow> g\<lparr>printed := printed g @ [(filename, e)]\<rparr>
         | Inr content \<Rightarrow>
             (let title = get_title content;
                  g1 = (if title \<noteq> [] then
                          g\<lparr>existing_notes := dict_set (existing_notes g) title filename\<rparr>
                        else g)
              in fold (add_link existing_files filename) (extract_links content) g1)))"

text \<open>
  \<open>for key in d: d[key] = list(dict.fromkeys(d[key]))\<close>.
\<close>

definition dedup_values :: "('k, 'v list) dict \<Rightarrow> ('k, 'v list) dict" where
  "dedup_values d =
     fold (\<lambda>key d'. dict_set d' key (list_fromkeys (get_list d' key))) (dict_keys d) d"

definition empty_graph :: "'f link_graph" where
  "empty_graph =
     \<lparr>existing_notes = [], all_links = [], broken_links = [], files_linking_to = [],
      printed = []\<rparr>"

definition scan_notes :: "note_dir \<Rightarrow> string list link_graph" where
  "scan_notes dir =
     (let existing_files = (case dir of None \<Rightarrow> {} | Some files \<Rightarrow> set (map fst files));
          g = (case dir of
                 None \<Rightarrow> empty_graph
               | Some files \<Rightarrow> fold (scan_file existing_files) files empty_graph)
      in \<lparr>existing_notes = existing_notes g,
          all_links = dedup_values (all_links g),
          broken_links = dedup_values (broken_links g),
          files_linking_to =
            map (\<lambda>(key, v). (key, sorted_list_of_set v)) (files_linking_to g),
          printed = printed g\<rparr>)"

text \<open>The files the scan visits: none when the directory is missing.\<close>

definition listing :: "note_dir \<Rightarrow> (string \<times> (string + string)) list" where
  "listing dir = (case dir of None \<Rightarrow> [] | Some files \<Rightarrow> files)"

section \<open>The structured artifact\<close>

record statistics =
  total_existing_notes :: nat
  total_linked_files :: nat
  total_broken_links :: nat
  total_broken_link_mentions :: nat

record json_mapping =
  json_existing_notes :: "(string, string) dict"
  json_broken_links :: "(string, string list) dict"
  json_all_links :: "(string, string list) dict"
  json_files_linking_to :: "(string, string list) dict"
  json_statistics :: statistics

definition generate_json_mapping ::
  "(string, string) dict \<Rightarrow> (string, string list) dict \<Rightarrow> (string, string list) dict \<Rightarrow>
   (string, string list) dict \<Rightarrow> json_mapping" where
  "generate_json_mapping en al bl fl =
     \<lparr>json_existing_notes = en,
      json_broken_links = bl,
      json_all_links = al,
      json_files_linking_to = fl,
      json_statistics =
        \<lparr>total_existing_notes = length en,
         total_linked_files = length al,
         total_broken_links = length bl,
         total_broken_link_mentions = sum_list (map length (dict_values bl))\<rparr>\<rparr>"

text \<open>What \<open>main\<close> hands to \<open>json.dump\<close>.\<close>

definition build_json :: "note_dir \<Rightarrow> json_mapping" where
  "build_json dir =
     (let g = scan_notes dir
      in generate_json_mapping (existing_notes g) (all_links g) (broken_links g)
           (files_linking_to g))"

section \<open>Notions used to state the properties\<close>

text \<open>
  Stable deduplication as a seen-set and a list: an element is kept the first time
  it is met.  \<open>list_fromkeys\<close> computes it.
\<close>

primrec unseen :: "'a set \<Rightarrow> 'a list \<Rightarrow> 'a list" where
  "unseen seen [] = []"
| "unseen seen (x # xs) = (if x \<in> seen then unseen seen xs else x # unseen (insert x seen) xs)"

definition first_occurrences :: "'a list \<Rightarrow> 'a list" where
  "first_occurrences xs = unseen {} xs"

text \<open>
  The link mentions of all the files that could be read, in scan order, each as
  (source file, display text, target file); and what the loops of \<open>scan_notes\<close>
  do to each accumulator for one mention.
\<close>

definition file_mentions :: "string \<times> (string + string) \<Rightarrow> (string \<times> string \<times> string) list" where
  "file_mentions f =
     (case f of (filename, r) \<Rightarrow>
        (case r of
           Inl e \<Rightarrow> []
         | Inr content \<Rightarrow>
             map (\<lambda>(link_text, linked_filename). (filename, link_text, linked_filename))
               (extract_links content)))"

definition mentions :: "(string \<times> (string + string)) list \<Rightarrow> (string \<times> string \<times> string) list" where
  "mentions files = concat (map file_mentions files)"

definition texts_for :: "string \<Rightarrow> (string \<times> string \<times> string) list \<Rightarrow> string list" where
  "texts_for t ms = map (\<lambda>(src, lt, tgt). lt) (filter (\<lambda>(src, lt, tgt). tgt = t) ms)"

definition sources_for :: "string \<Rightarrow> (string \<times> string \<times> string) list \<Rightarrow> string set" where
  "sources_for t ms = set (map (\<lambda>(src, lt, tgt). src) (filter (\<lambda>(src, lt, tgt). tgt = t) ms))"

definition targets :: "(string \<times> string \<times> string) list \<Rightarrow> string set" where
  "targets ms = set (map (\<lambda>(src, lt, tgt). tgt) ms)"

definition app_step ::
  "string \<times> string \<times> string \<Rightarrow> (string, string list) dict \<Rightarrow> (string, string list) dict" where
  "app_step m d = (case m of (src, lt, tgt) \<Rightarrow> dict_set d tgt (get_list d tgt @ [lt]))"

definition ins_step ::
  "string \<times> string \<times> string \<Rightarrow> (string, string set) dict \<Rightarrow> (string, string set) dict" where
  "ins_step m d = (case m of (src, lt, tgt) \<Rightarrow> dict_set d tgt (insert src (get_set d tgt)))"

definition file_title :: "string \<times> (string + string) \<Rightarrow> string" where
  "file_title f = (case f of (filename, r) \<Rightarrow> (case r of Inl e \<Rightarrow> [] | Inr content \<Rightarrow> get_title content))"

definition title_step ::
  "string \<times> (string + string) \<Rightarrow> (string, string) dict \<Rightarrow> (string, string) dict" where
  "title_step f d = (if file_title f \<noteq> [] then dict_set d (file_title f) (fst f) else d)"

definition file_printed :: "string \<times> (string + string) \<Rightarrow> (string \<times> string) list" where
  "file_printed f = (case f of (filename, r) \<Rightarrow> (case r of Inl e \<Rightarrow> [(filename, e)] | Inr content \<Rightarrow> []))"





text \<open>
  Follows the spec's words (4.1): the delimiter is a delimiter line, a line that is
  \<^verbatim>\<open>---\<close> and nothing else but whitespace.  A note has a closing delimiter when it
  has a second such line.
\<close>

definition spec_delimiter_line :: "string \<Rightarrow> bool" where
  "spec_delimiter_line line = (strip_ws line = ''---'')"

definition spec_has_closing_delimiter :: "string \<Rightarrow> bool" where
  "spec_has_closing_delimiter content =
     (length (filter spec_delimiter_line (py_split content [newline] None)) \<ge> 2)"

section \<open>Properties of the dictionary operations\<close>

lemma dict_get_set [simp]:
  "dict_get (dict_set d k v) k' = (if k' = k then Some v else dict_get d k')"
  by (induction d) (auto simp: dict_get_def)

lemma dict_keys_set:
  "dict_keys (dict_set d k v) = (if k \<in> set (dict_keys d) then dict_keys d else dict_keys d @ [k])"
  by (induction d) (force simp: dict_keys_def)+

lemma set_dict_keys_set [simp]:
  "set (dict_keys (dict_set d k v)) = insert k (set (dict_keys d))"
  by (auto simp: dict_keys_set)

lemma distinct_dict_set [simp]:
  "distinct (dict_keys d) \<Longrightarrow> distinct (dict_keys (dict_set d k v))"
  by (simp add: dict_keys_set)

lemma length_dict_set:
  "length (dict_set d k v) = (if k \<in> set (dict_keys d) then length d else Suc (length d))"
  by (induction d) (force simp: dict_keys_def)+

lemma dict_get_None_iff: "dict_get d k = None \<longleftrightarrow> k \<notin> set (dict_keys d)"
  by (simp add: dict_get_def dict_keys_def map_of_eq_None_iff)

lemma dict_get_Some_key: "dict_get d k = Some v \<Longrightarrow> k \<in> set (dict_keys d)"
  using dict_get_None_iff [of d k] by auto

lemma dict_get_get_list:
  "dict_get d k = (if k \<in> set (dict_keys d) then Some (get_list d k) else None)"
  by (cases "dict_get d k") (auto simp: get_list_def dict_get_None_iff dest: dict_get_Some_key)

lemma dict_get_get_set:
  "dict_get d k = (if k \<in> set (dict_keys d) then Some (get_set d k) else None)"
  by (cases "dict_get d k") (auto simp: get_set_def dict_get_None_iff dest: dict_get_Some_key)

lemma get_list_set [simp]:
  "get_list (dict_set d k v) k' = (if k' = k then v else get_list d k')"
  by (simp add: get_list_def)

lemma get_set_set [simp]:
  "get_set (dict_set d k v) k' = (if k' = k then v else get_set d k')"
  by (simp add: get_set_def)

lemma length_dict_keys [simp]: "length (dict_keys d) = length d"
  by (simp add: dict_keys_def)

lemma dict_get_map_values:
  "dict_get (map (\<lambda>(k, v). (k, f v)) d) k = map_option f (dict_get d k)"
  by (induction d) (auto simp: dict_get_def)

lemma dict_keys_map_values [simp]:
  "dict_keys (map (\<lambda>(k, v). (k, f v)) d) = dict_keys d"
  by (induction d) (auto simp: dict_keys_def)

section \<open>Deduplication\<close>

lemma fromkeys_fold:
  "dict_keys (fold (\<lambda>x d. dict_set d x ()) xs d) = dict_keys d @ unseen (set (dict_keys d)) xs"
  by (induction xs arbitrary: d) (auto simp: dict_keys_set)

lemma list_fromkeys_first: "list_fromkeys xs = first_occurrences xs"
  by (simp add: list_fromkeys_def first_occurrences_def fromkeys_fold) (simp add: dict_keys_def)

lemma set_unseen: "set (unseen seen xs) = set xs - seen"
  by (induction xs arbitrary: seen) auto

lemma distinct_unseen: "distinct (unseen seen xs)"
  by (induction xs arbitrary: seen) (auto simp: set_unseen)

lemma set_list_fromkeys [simp]: "set (list_fromkeys xs) = set xs"
  by (simp add: list_fromkeys_first first_occurrences_def set_unseen)

lemma distinct_list_fromkeys [simp]: "distinct (list_fromkeys xs)"
  by (simp add: list_fromkeys_first first_occurrences_def distinct_unseen)

lemma list_fromkeys_Nil_iff [simp]: "list_fromkeys xs = [] \<longleftrightarrow> xs = []"
  using set_list_fromkeys [of xs] by (metis set_empty)

lemma dedup_step_get:
  "dict_get (dict_set d key (list_fromkeys (get_list d key))) k =
     (if k = key then Some (list_fromkeys (get_list d key)) else dict_get d k)"
  by simp

lemma dedup_fold_keys:
  "set ks \<subseteq> set (dict_keys d) \<Longrightarrow>
   dict_keys (fold (\<lambda>key d'. dict_set d' key (list_fromkeys (get_list d' key))) ks d) = dict_keys d"
  by (induction ks arbitrary: d) (auto simp: dict_keys_set)

lemma dedup_fold_get:
  "distinct ks \<Longrightarrow>
   get_list (fold (\<lambda>key d'. dict_set d' key (list_fromkeys (get_list d' key))) ks d) k =
     (if k \<in> set ks then list_fromkeys (get_list d k) else get_list d k)"
  by (induction ks arbitrary: d) auto

lemma dict_keys_dedup_values [simp]: "dict_keys (dedup_values d) = dict_keys d"
  by (simp add: dedup_values_def dedup_fold_keys)

lemma get_list_dedup_values:
  assumes "distinct (dict_keys d)"
  shows "get_list (dedup_values d) k = list_fromkeys (get_list d k)"
proof (cases "k \<in> set (dict_keys d)")
  case True
  with assms show ?thesis
    by (simp add: dedup_values_def dedup_fold_get)
next
  case False
  then have "k \<notin> set (dict_keys (dedup_values d))"
    by simp
  with False show ?thesis
    by (simp add: get_list_def dict_get_get_list list_fromkeys_def dict_keys_def
        del: dict_keys_dedup_values)
qed

section \<open>The mentions of a directory\<close>

lemma texts_for_simps [simp]:
  "texts_for t [] = []"
  "texts_for t ((src, lt, tgt) # ms) = (if tgt = t then lt # texts_for t ms else texts_for t ms)"
  "texts_for t (ms @ ms') = texts_for t ms @ texts_for t ms'"
  by (simp_all add: texts_for_def)

lemma sources_for_simps [simp]:
  "sources_for t [] = {}"
  "sources_for t ((src, lt, tgt) # ms) =
     (if tgt = t then insert src (sources_for t ms) else sources_for t ms)"
  "sources_for t (ms @ ms') = sources_for t ms \<union> sources_for t ms'"
  by (simp_all add: sources_for_def)

lemma targets_simps [simp]:
  "targets [] = {}"
  "targets ((src, lt, tgt) # ms) = insert tgt (targets ms)"
  "targets (ms @ ms') = targets ms \<union> targets ms'"
  by (simp_all add: targets_def)

lemma texts_for_Nil_iff: "texts_for t ms = [] \<longleftrightarrow> t \<notin> targets ms"
  by (induction ms) (auto split: if_splits)

lemma sources_for_empty_iff: "sources_for t ms = {} \<longleftrightarrow> t \<notin> targets ms"
  by (induction ms) (auto split: if_splits)

lemma finite_sources_for [simp]: "finite (sources_for t ms)"
  by (simp add: sources_for_def)

lemma texts_for_filter:
  "texts_for t (filter (\<lambda>(src, lt, tgt). P tgt) ms) = (if P t then texts_for t ms else [])"
proof (induction ms)
  case Nil
  show ?case by simp
next
  case (Cons m ms)
  obtain src lt tgt where m: "m = (src, lt, tgt)" by (cases m)
  show ?case
  proof (cases "P tgt")
    case True
    with Cons.IH show ?thesis by (cases "tgt = t") (simp_all add: m)
  next
    case False
    with Cons.IH show ?thesis by (cases "tgt = t") (simp_all add: m)
  qed
qed

lemma targets_filter:
  "targets (filter (\<lambda>(src, lt, tgt). P tgt) ms) = {t \<in> targets ms. P t}"
proof (induction ms)
  case Nil
  show ?case by simp
next
  case (Cons m ms)
  obtain src lt tgt where m: "m = (src, lt, tgt)" by (cases m)
  show ?case
  proof (cases "P tgt")
    case True
    with Cons.IH show ?thesis by (simp add: m) blast
  next
    case False
    with Cons.IH show ?thesis by (simp add: m) blast
  qed
qed

lemma get_list_fold_app:
  "get_list (fold app_step ms d) t = get_list d t @ texts_for t ms"
  by (induction ms arbitrary: d) (auto simp: app_step_def)

lemma keys_fold_app:
  "set (dict_keys (fold app_step ms d)) = set (dict_keys d) \<union> targets ms"
  by (induction ms arbitrary: d) (auto simp: app_step_def)

lemma distinct_fold_app:
  "distinct (dict_keys d) \<Longrightarrow> distinct (dict_keys (fold app_step ms d))"
  by (induction ms arbitrary: d) (auto simp: app_step_def)

lemma get_set_fold_ins:
  "get_set (fold ins_step ms d) t = get_set d t \<union> sources_for t ms"
proof (induction ms arbitrary: d)
  case Nil
  show ?case by simp
next
  case (Cons m ms)
  obtain src lt tgt where m: "m = (src, lt, tgt)"
    by (cases m)
  have "get_set (fold ins_step (m # ms) d) t = get_set (ins_step m d) t \<union> sources_for t ms"
    by (simp add: Cons.IH)
  moreover have "get_set (ins_step m d) t = (if tgt = t then insert src (get_set d t) else get_set d t)"
    by (simp add: m ins_step_def)
  ultimately show ?case
    by (simp add: m)
qed

lemma keys_fold_ins:
  "set (dict_keys (fold ins_step ms d)) = set (dict_keys d) \<union> targets ms"
  by (induction ms arbitrary: d) (auto simp: ins_step_def)

lemma distinct_fold_ins:
  "distinct (dict_keys d) \<Longrightarrow> distinct (dict_keys (fold ins_step ms d))"
  by (induction ms arbitrary: d) (auto simp: ins_step_def)

section \<open>The loops, field by field\<close>

lemma add_link_fields [simp]:
  "existing_notes (add_link E fn l g) = existing_notes g"
  "printed (add_link E fn l g) = printed g"
  "all_links (add_link E fn (lt, tgt) g) = app_step (fn, lt, tgt) (all_links g)"
  "files_linking_to (add_link E fn (lt, tgt) g) = ins_step (fn, lt, tgt) (files_linking_to g)"
  "broken_links (add_link E fn (lt, tgt) g) =
     (if tgt \<notin> E then app_step (fn, lt, tgt) (broken_links g) else broken_links g)"
  by (simp_all add: add_link_def Let_def app_step_def ins_step_def split: prod.splits)

lemma fold_add_link_existing_notes:
  "existing_notes (fold (add_link E fn) ls g) = existing_notes g"
  by (induction ls arbitrary: g) simp_all

lemma fold_add_link_printed:
  "printed (fold (add_link E fn) ls g) = printed g"
  by (induction ls arbitrary: g) simp_all

lemma fold_add_link_all_links:
  "all_links (fold (add_link E fn) ls g) =
     fold app_step (map (\<lambda>(lt, tgt). (fn, lt, tgt)) ls) (all_links g)"
proof (induction ls arbitrary: g)
  case Nil
  show ?case by simp
next
  case (Cons l ls)
  obtain lt tgt where l: "l = (lt, tgt)" by (cases l)
  show ?case by (simp add: l Cons.IH)
qed

lemma fold_add_link_files_linking_to:
  "files_linking_to (fold (add_link E fn) ls g) =
     fold ins_step (map (\<lambda>(lt, tgt). (fn, lt, tgt)) ls) (files_linking_to g)"
proof (induction ls arbitrary: g)
  case Nil
  show ?case by simp
next
  case (Cons l ls)
  obtain lt tgt where l: "l = (lt, tgt)" by (cases l)
  show ?case by (simp add: l Cons.IH)
qed

lemma fold_add_link_broken_links:
  "broken_links (fold (add_link E fn) ls g) =
     fold app_step
       (filter (\<lambda>(src, lt, tgt). tgt \<notin> E) (map (\<lambda>(lt, tgt). (fn, lt, tgt)) ls))
       (broken_links g)"
proof (induction ls arbitrary: g)
  case Nil
  show ?case by simp
next
  case (Cons l ls)
  obtain lt tgt where l: "l = (lt, tgt)" by (cases l)
  show ?case by (simp add: l Cons.IH)
qed

lemmas fold_add_link_fields =
  fold_add_link_existing_notes fold_add_link_printed fold_add_link_all_links
  fold_add_link_files_linking_to fold_add_link_broken_links

lemma scan_file_fields:
  "existing_notes (scan_file E f g) = title_step f (existing_notes g)"
  "printed (scan_file E f g) = printed g @ file_printed f"
  "all_links (scan_file E f g) = fold app_step (file_mentions f) (all_links g)"
  "files_linking_to (scan_file E f g) = fold ins_step (file_mentions f) (files_linking_to g)"
  "broken_links (scan_file E f g) =
     fold app_step (filter (\<lambda>(src, lt, tgt). tgt \<notin> E) (file_mentions f)) (broken_links g)"
proof -
  obtain filename r where f: "f = (filename, r)" by (cases f)
  show "existing_notes (scan_file E f g) = title_step f (existing_notes g)"
    by (cases r)
      (simp_all add: f scan_file_def Let_def fold_add_link_fields file_title_def title_step_def)
  show "printed (scan_file E f g) = printed g @ file_printed f"
    by (cases r) (simp_all add: f scan_file_def Let_def fold_add_link_fields file_printed_def)
  show "all_links (scan_file E f g) = fold app_step (file_mentions f) (all_links g)"
    by (cases r) (simp_all add: f scan_file_def Let_def fold_add_link_fields file_mentions_def)
  show "files_linking_to (scan_file E f g) = fold ins_step (file_mentions f) (files_linking_to g)"
    by (cases r) (simp_all add: f scan_file_def Let_def fold_add_link_fields file_mentions_def)
  show "broken_links (scan_file E f g) =
     fold app_step (filter (\<lambda>(src, lt, tgt). tgt \<notin> E) (file_mentions f)) (broken_links g)"
    by (cases r) (simp_all add: f scan_file_def Let_def fold_add_link_fields file_mentions_def)
qed

lemma fold_scan_file_existing_notes:
  "existing_notes (fold (scan_file E) files g) = fold title_step files (existing_notes g)"
  by (induction files arbitrary: g) (simp_all add: scan_file_fields)

lemma fold_scan_file_printed:
  "printed (fold (scan_file E) files g) = printed g @ concat (map file_printed files)"
  by (induction files arbitrary: g) (simp_all add: scan_file_fields)

lemma fold_scan_file_all_links:
  "all_links (fold (scan_file E) files g) = fold app_step (mentions files) (all_links g)"
  by (induction files arbitrary: g) (simp_all add: scan_file_fields mentions_def)

lemma fold_scan_file_files_linking_to:
  "files_linking_to (fold (scan_file E) files g) =
     fold ins_step (mentions files) (files_linking_to g)"
  by (induction files arbitrary: g) (simp_all add: scan_file_fields mentions_def)

lemma fold_scan_file_broken_links:
  "broken_links (fold (scan_file E) files g) =
     fold app_step (filter (\<lambda>(src, lt, tgt). tgt \<notin> E) (mentions files)) (broken_links g)"
  by (induction files arbitrary: g) (simp_all add: scan_file_fields mentions_def)

section \<open>What the scan returns\<close>

lemma scan_notes_listing:
  "scan_notes dir =
     (let g = fold (scan_file (set (map fst (listing dir)))) (listing dir) empty_graph
      in \<lparr>existing_notes = existing_notes g,
          all_links = dedup_values (all_links g),
          broken_links = dedup_values (broken_links g),
          files_linking_to = map (\<lambda>(key, v). (key, sorted_list_of_set v)) (files_linking_to g),
          printed = printed g\<rparr>)"
  by (cases dir) (simp_all add: scan_notes_def listing_def)

lemma empty_graph_fields [simp]:
  "existing_notes empty_graph = []"
  "all_links empty_graph = []"
  "broken_links empty_graph = []"
  "files_linking_to empty_graph = []"
  "printed empty_graph = []"
  by (simp_all add: empty_graph_def)

lemma dict_keys_Nil [simp]: "dict_keys [] = []"
  by (simp add: dict_keys_def)

lemma get_list_Nil [simp]: "get_list [] k = []"
  by (simp add: get_list_def dict_get_def)

lemma get_set_Nil [simp]: "get_set [] k = {}"
  by (simp add: get_set_def dict_get_def)

lemma scan_existing_notes:
  "existing_notes (scan_notes dir) = fold title_step (listing dir) []"
  by (simp add: scan_notes_listing Let_def fold_scan_file_existing_notes)

lemma scan_printed:
  "printed (scan_notes dir) = concat (map file_printed (listing dir))"
  by (simp add: scan_notes_listing Let_def fold_scan_file_printed)

lemma scan_all_links:
  "all_links (scan_notes dir) = dedup_values (fold app_step (mentions (listing dir)) [])"
  by (simp add: scan_notes_listing Let_def fold_scan_file_all_links)

lemma scan_broken_links:
  "broken_links (scan_notes dir) =
     dedup_values (fold app_step
       (filter (\<lambda>(src, lt, tgt). tgt \<notin> set (map fst (listing dir))) (mentions (listing dir))) [])"
  by (simp add: scan_notes_listing Let_def fold_scan_file_broken_links)

lemma scan_files_linking_to:
  "files_linking_to (scan_notes dir) =
     map (\<lambda>(key, v). (key, sorted_list_of_set v)) (fold ins_step (mentions (listing dir)) [])"
  by (simp add: scan_notes_listing Let_def fold_scan_file_files_linking_to)

lemma keys_all_links:
  "set (dict_keys (all_links (scan_notes dir))) = targets (mentions (listing dir))"
  by (simp add: scan_all_links keys_fold_app)

lemma keys_files_linking_to:
  "set (dict_keys (files_linking_to (scan_notes dir))) = targets (mentions (listing dir))"
  by (simp add: scan_files_linking_to keys_fold_ins)

lemma keys_broken_links:
  "set (dict_keys (broken_links (scan_notes dir))) =
     {t \<in> targets (mentions (listing dir)). t \<notin> set (map fst (listing dir))}"
  by (simp add: scan_broken_links keys_fold_app targets_filter)

lemma distinct_keys_all_links: "distinct (dict_keys (all_links (scan_notes dir)))"
  by (simp add: scan_all_links distinct_fold_app)

lemma distinct_keys_broken_links: "distinct (dict_keys (broken_links (scan_notes dir)))"
  by (simp add: scan_broken_links distinct_fold_app)

lemma distinct_keys_files_linking_to: "distinct (dict_keys (files_linking_to (scan_notes dir)))"
  by (simp add: scan_files_linking_to distinct_fold_ins)

lemma get_all_links:
  "get_list (all_links (scan_notes dir)) t = list_fromkeys (texts_for t (mentions (listing dir)))"
  by (simp add: scan_all_links get_list_dedup_values distinct_fold_app get_list_fold_app)

lemma get_broken_links:
  "get_list (broken_links (scan_notes dir)) t =
     (if t \<notin> set (map fst (listing dir)) then list_fromkeys (texts_for t (mentions (listing dir)))
      else [])"
proof -
  have "get_list (broken_links (scan_notes dir)) t =
      list_fromkeys (texts_for t
        (filter (\<lambda>(src, lt, tgt). tgt \<notin> set (map fst (listing dir))) (mentions (listing dir))))"
    by (simp add: scan_broken_links get_list_dedup_values distinct_fold_app get_list_fold_app)
  then show ?thesis
    by (simp add: texts_for_filter list_fromkeys_def)
qed

lemma lookup_all_links:
  "dict_get (all_links (scan_notes dir)) t =
     (if t \<in> targets (mentions (listing dir))
      then Some (list_fromkeys (texts_for t (mentions (listing dir)))) else None)"
  by (simp add: dict_get_get_list [of "all_links (scan_notes dir)"] keys_all_links get_all_links)

lemma lookup_broken_links:
  "dict_get (broken_links (scan_notes dir)) t =
     (if t \<in> targets (mentions (listing dir)) \<and> t \<notin> set (map fst (listing dir))
      then Some (list_fromkeys (texts_for t (mentions (listing dir)))) else None)"
  by (simp add: dict_get_get_list [of "broken_links (scan_notes dir)"] keys_broken_links
      get_broken_links)

lemma lookup_files_linking_to:
  "dict_get (files_linking_to (scan_notes dir)) t =
     (if t \<in> targets (mentions (listing dir))
      then Some (sorted_list_of_set (sources_for t (mentions (listing dir)))) else None)"
proof -
  let ?d = "fold ins_step (mentions (listing dir)) []"
  have "dict_get (files_linking_to (scan_notes dir)) t = map_option sorted_list_of_set (dict_get ?d t)"
    by (simp add: scan_files_linking_to dict_get_map_values)
  also have "dict_get ?d t =
      (if t \<in> targets (mentions (listing dir)) then Some (sources_for t (mentions (listing dir)))
       else None)"
    by (simp add: dict_get_get_set [of ?d] keys_fold_ins get_set_fold_ins)
  finally show ?thesis by simp
qed

lemma set_dict_values_set:
  "set (dict_values (dict_set d k v)) \<subseteq> insert v (set (dict_values d))"
proof (induction d)
  case Nil
  show ?case by (simp add: dict_values_def)
next
  case (Cons kv d)
  obtain k' v' where kv: "kv = (k', v')" by (cases kv)
  show ?case
  proof (cases "k' = k")
    case True
    then show ?thesis by (auto simp: kv dict_values_def)
  next
    case False
    with Cons.IH show ?thesis by (auto simp: kv dict_values_def)
  qed
qed

lemma values_fold_title_step:
  "set (dict_values (fold title_step files d)) \<subseteq> set (dict_values d) \<union> set (map fst files)"
proof (induction files arbitrary: d)
  case Nil
  show ?case by simp
next
  case (Cons f files)
  have "set (dict_values (title_step f d)) \<subseteq> insert (fst f) (set (dict_values d))"
    using set_dict_values_set [of d "file_title f" "fst f"] by (auto simp: title_step_def)
  with Cons.IH [of "title_step f d"] show ?case
    by auto
qed

lemma values_existing_notes:
  "set (dict_values (existing_notes (scan_notes dir))) \<subseteq> set (map fst (listing dir))"
  using values_fold_title_step [of "listing dir" "[]"]
  by (simp add: scan_existing_notes dict_values_def)

lemma keys_fold_app_ins:
  "dict_keys d = dict_keys d' \<Longrightarrow> dict_keys (fold app_step ms d) = dict_keys (fold ins_step ms d')"
proof (induction ms arbitrary: d d')
  case Nil
  then show ?case by simp
next
  case (Cons m ms)
  obtain src lt tgt where m: "m = (src, lt, tgt)" by (cases m)
  have "dict_keys (app_step m d) = dict_keys (ins_step m d')"
    using Cons.prems by (simp add: m app_step_def ins_step_def dict_keys_set)
  then show ?case
    using Cons.IH by simp
qed

lemma value_has_key:
  "v \<in> set (dict_values d) \<Longrightarrow> distinct (dict_keys d) \<Longrightarrow>
   \<exists>k. k \<in> set (dict_keys d) \<and> dict_get d k = Some v"
proof -
  assume "v \<in> set (dict_values d)" and dist: "distinct (dict_keys d)"
  then obtain k where kv: "(k, v) \<in> set d"
    by (auto simp: dict_values_def)
  with dist have "dict_get d k = Some v"
    by (simp add: dict_get_def dict_keys_def)
  moreover from kv have "k \<in> set (dict_keys d)"
    by (force simp: dict_keys_def)
  ultimately show ?thesis by blast
qed

lemma all_links_values_nonempty: "[] \<notin> set (dict_values (all_links (scan_notes dir)))"
proof
  assume "[] \<in> set (dict_values (all_links (scan_notes dir)))"
  then obtain k where "dict_get (all_links (scan_notes dir)) k = Some []"
    using value_has_key [OF _ distinct_keys_all_links] by blast
  then show False
    by (simp add: lookup_all_links texts_for_Nil_iff split: if_splits)
qed

lemma broken_links_values_nonempty: "[] \<notin> set (dict_values (broken_links (scan_notes dir)))"
proof
  assume "[] \<in> set (dict_values (broken_links (scan_notes dir)))"
  then obtain k where "dict_get (broken_links (scan_notes dir)) k = Some []"
    using value_has_key [OF _ distinct_keys_broken_links] by blast
  then show False
    by (simp add: lookup_broken_links texts_for_Nil_iff split: if_splits)
qed

lemma files_linking_to_values_nonempty:
  "[] \<notin> set (dict_values (files_linking_to (scan_notes dir)))"
proof
  assume "[] \<in> set (dict_values (files_linking_to (scan_notes dir)))"
  then obtain k where "dict_get (files_linking_to (scan_notes dir)) k = Some []"
    using value_has_key [OF _ distinct_keys_files_linking_to] by blast
  then show False
    by (simp add: lookup_files_linking_to sources_for_empty_iff split: if_splits)
qed

lemma sum_list_values:
  "distinct (dict_keys d) \<Longrightarrow>
   sum_list (map length (dict_values d)) = (\<Sum>k \<in> set (dict_keys d). length (get_list d k))"
proof (induction d)
  case Nil
  show ?case by (simp add: dict_values_def)
next
  case (Cons kv d)
  obtain k v where kv: "kv = (k, v)" by (cases kv)
  from Cons.prems have k: "k \<notin> set (dict_keys d)" and dist: "distinct (dict_keys d)"
    by (simp_all add: kv dict_keys_def)
  have same: "\<And>k'. k' \<in> set (dict_keys d) \<Longrightarrow> get_list (kv # d) k' = get_list d k'"
    using k by (auto simp: kv get_list_def dict_get_def)
  have "(\<Sum>k' \<in> set (dict_keys (kv # d)). length (get_list (kv # d) k')) =
      length (get_list (kv # d) k) + (\<Sum>k' \<in> set (dict_keys d). length (get_list (kv # d) k'))"
    using k by (simp add: kv dict_keys_def)
  also have "\<dots> = length v + (\<Sum>k' \<in> set (dict_keys d). length (get_list d k'))"
    using same by (simp add: kv get_list_def dict_get_def)
  finally show ?case
    using Cons.IH [OF dist] by (simp add: kv dict_values_def)
qed

lemma file_mentions_Inl [simp]: "file_mentions (fn, Inl e) = []"
  by (simp add: file_mentions_def)

lemma extract_links_Nil [simp]: "extract_links [] = []"
  by (simp add: extract_links_def finditer.simps)

lemma get_title_Nil [simp]: "get_title [] = []"
  by (simp add: get_title_def extract_yaml_frontmatter_def startswith_def dict_get_def)

lemma file_mentions_empty [simp]: "file_mentions (fn, Inr []) = []"
  by (simp add: file_mentions_def)

lemma title_step_Inl [simp]: "title_step (fn, Inl e) d = d"
  by (simp add: title_step_def file_title_def)

lemma title_step_empty [simp]: "title_step (fn, Inr []) d = d"
  by (simp add: title_step_def file_title_def)

lemma mentions_simps [simp]:
  "mentions [] = []"
  "mentions (f # files) = file_mentions f @ mentions files"
  "mentions (files @ files') = mentions files @ mentions files'"
  by (simp_all add: mentions_def)

lemma listing_Some [simp]: "listing (Some files) = files"
  by (simp add: listing_def)

lemma listing_None [simp]: "listing None = []"
  by (simp add: listing_def)

lemma file_printed_simps [simp]:
  "file_printed (fn, Inl e) = [(fn, e)]"
  "file_printed (fn, Inr content) = []"
  by (simp_all add: file_printed_def)

section \<open>Properties of the link pattern\<close>

lemma match_link_other: "c \<noteq> CHR ''['' \<Longrightarrow> match_link (c # s) = None"
  by (simp add: match_link_def)

lemma finditer_Nil [simp]: "finditer [] = []"
  by (simp add: finditer.simps)

lemma finditer_skip: "CHR ''['' \<notin> set pre \<Longrightarrow> finditer (pre @ s) = finditer s"
proof (induction pre)
  case Nil
  show ?case by simp
next
  case (Cons c pre)
  then have "c \<noteq> CHR ''[''"
    by auto
  then have "match_link (c # pre @ s) = None"
    by (rule match_link_other)
  then have "finditer ((c # pre) @ s) = finditer (pre @ s)"
    by (simp add: finditer.simps [of "c # pre @ s"])
  with Cons show ?case by simp
qed

lemma finditer_no_bracket: "CHR ''['' \<notin> set s \<Longrightarrow> finditer s = []"
  using finditer_skip [of s "[]"] by simp

lemma finditer_match:
  "match_link s = Some (lt, p, r) \<Longrightarrow> finditer s = (lt, p) # finditer r"
proof -
  assume m: "match_link s = Some (lt, p, r)"
  then have "s \<noteq> []"
    by (auto simp: match_link_def)
  with m show ?thesis
    by (simp add: finditer.simps [of s])
qed

lemma match_link_A: "match_link (''[A](./x.md)'' @ r) = Some (''A'', ''x.md'', r)"
  by (simp add: match_link_def path_group_def startswith_def endswith_def)

lemma match_link_B: "match_link (''[B](x.md)'' @ r) = Some (''B'', ''x.md'', r)"
  by (simp add: match_link_def path_group_def startswith_def endswith_def)

lemma normalise_x_md: "py_replace (basename ''x.md'') ''./'' [] = ''x.md''"
  by code_simp

lemma list_fromkeys_A_B: "list_fromkeys [''A'', ''B''] = [''A'', ''B'']"
  by code_simp

lemma extract_links_A_B:
  assumes "CHR ''['' \<notin> set pre" and "CHR ''['' \<notin> set mid" and "CHR ''['' \<notin> set post"
  shows "extract_links (pre @ ''[A](./x.md)'' @ mid @ ''[B](x.md)'' @ post) =
           [(''A'', ''x.md''), (''B'', ''x.md'')]"
proof -
  have "finditer (pre @ ''[A](./x.md)'' @ mid @ ''[B](x.md)'' @ post) =
      finditer (''[A](./x.md)'' @ mid @ ''[B](x.md)'' @ post)"
    using assms(1) by (rule finditer_skip)
  also have "\<dots> = (''A'', ''x.md'') # finditer (mid @ ''[B](x.md)'' @ post)"
    by (rule finditer_match [OF match_link_A])
  also have "finditer (mid @ ''[B](x.md)'' @ post) = finditer (''[B](x.md)'' @ post)"
    using assms(2) by (rule finditer_skip)
  also have "\<dots> = (''B'', ''x.md'') # finditer post"
    by (rule finditer_match [OF match_link_B])
  also have "finditer post = []"
    using assms(3) by (rule finditer_no_bracket)
  finally show ?thesis
    by (simp add: extract_links_def normalise_x_md)
qed

section \<open>Properties of the front-matter parser\<close>

lemma startswith_append: "startswith s p \<longleftrightarrow> (\<exists>r. s = p @ r)"
proof
  assume "startswith s p"
  then have "s = p @ drop (length p) s"
    by (metis append_take_drop_id startswith_def)
  then show "\<exists>r. s = p @ r" ..
next
  assume "\<exists>r. s = p @ r"
  then show "startswith s p"
    by (auto simp: startswith_def)
qed

lemma split_first_None_iff:
  assumes "sep \<noteq> []"
  shows "split_first s sep = None \<longleftrightarrow> \<not> (\<exists>a b. s = a @ sep @ b)"
proof (induction s)
  case Nil
  with assms show ?case by simp
next
  case (Cons c cs)
  show ?case
  proof (cases "startswith (c # cs) sep")
    case True
    then obtain r where "c # cs = [] @ sep @ r"
      by (auto simp: startswith_append)
    then have "\<exists>a b. c # cs = a @ sep @ b"
      by blast
    with True show ?thesis by simp
  next
    case False
    have "(\<exists>a b. c # cs = a @ sep @ b) \<longleftrightarrow> (\<exists>a b. cs = a @ sep @ b)"
    proof
      assume "\<exists>a b. c # cs = a @ sep @ b"
      then obtain a b where ab: "c # cs = a @ sep @ b" by blast
      show "\<exists>a b. cs = a @ sep @ b"
      proof (cases a)
        case Nil
        with ab False show ?thesis by (simp add: startswith_append)
      next
        case (Cons x a')
        with ab have "cs = a' @ sep @ b" by simp
        then show ?thesis by blast
      qed
    next
      assume "\<exists>a b. cs = a @ sep @ b"
      then obtain a b where "cs = a @ sep @ b" by blast
      then have "c # cs = (c # a) @ sep @ b" by simp
      then show "\<exists>a b. c # cs = a @ sep @ b" by blast
    qed
    with False Cons.IH show ?thesis by simp
  qed
qed

lemma unclosed_parts:
  assumes "startswith content ''---''" and "split_first (drop 3 content) ''---'' = None"
  shows "py_split content ''---'' (Some 2) = [[], drop 3 content]"
proof -
  from assms(1) obtain c cs where c: "content = c # cs"
    by (cases content) (auto simp: startswith_def)
  from assms(1) have "split_first (c # cs) ''---'' = Some ([], drop (length ''---'') (c # cs))"
    unfolding c by (simp only: split_first.simps if_True)
  then have "split_first content ''---'' = Some ([], drop 3 content)"
    by (simp add: c numeral_3_eq_3)
  then have "py_split content ''---'' (Some 2) = [] # py_split (drop 3 content) ''---'' (Some 1)"
    by (simp add: py_split.simps [of content])
  also have "py_split (drop 3 content) ''---'' (Some 1) = [drop 3 content]"
    using assms(2) by (simp add: py_split.simps [of "drop 3 content"])
  finally show ?thesis .
qed

lemma unclosed_frontmatter:
  assumes "startswith content ''---''" and "split_first (drop 3 content) ''---'' = None"
  shows "extract_yaml_frontmatter content = []"
  by (simp add: extract_yaml_frontmatter_def unclosed_parts [OF assms])

lemma in_texts_for: "(src, lt, tgt) \<in> set ms \<Longrightarrow> lt \<in> set (texts_for tgt ms)"
  by (force simp: texts_for_def)

lemma in_sources_for: "(src, lt, tgt) \<in> set ms \<Longrightarrow> src \<in> sources_for tgt ms"
  by (force simp: sources_for_def)

lemma in_targets: "(src, lt, tgt) \<in> set ms \<Longrightarrow> tgt \<in> targets ms"
  by (force simp: targets_def)

lemma file_mention_in_mentions:
  "f \<in> set files \<Longrightarrow> m \<in> set (file_mentions f) \<Longrightarrow> m \<in> set (mentions files)"
  by (auto simp: mentions_def)

lemma get_files_linking_to:
  "get_list (files_linking_to (scan_notes dir)) t =
     (if t \<in> targets (mentions (listing dir))
      then sorted_list_of_set (sources_for t (mentions (listing dir))) else [])"
  by (simp add: get_list_def lookup_files_linking_to)











lemma split_first_Some:
  "split_first s sep = Some (a, b) \<Longrightarrow> s = a @ sep @ b"
proof (induction s arbitrary: a)
  case Nil
  then show ?case by (simp split: if_splits)
next
  case (Cons c cs)
  show ?case
  proof (cases "startswith (c # cs) sep")
    case True
    with Cons.prems have "a = []" and "b = drop (length sep) (c # cs)"
      by simp_all
    moreover from True have "c # cs = sep @ drop (length sep) (c # cs)"
      by (metis append_take_drop_id startswith_def)
    ultimately show ?thesis by simp
  next
    case False
    with Cons.prems obtain a' where a': "split_first cs sep = Some (a', b)" and a: "a = c # a'"
      by (auto split: prod.splits)
    from Cons.IH [OF a'] a show ?thesis by simp
  qed
qed

lemma closed_parts:
  assumes "startswith content ''---''" and "split_first (drop 3 content) ''---'' = Some (fm, rest)"
  shows "py_split content ''---'' (Some 2) = [[], fm, rest]"
proof -
  from assms(1) obtain c cs where c: "content = c # cs"
    by (cases content) (auto simp: startswith_def)
  from assms(1) have "split_first (c # cs) ''---'' = Some ([], drop (length ''---'') (c # cs))"
    unfolding c by (simp only: split_first.simps if_True)
  then have "split_first content ''---'' = Some ([], drop 3 content)"
    by (simp add: c numeral_3_eq_3)
  then have "py_split content ''---'' (Some 2) = [] # py_split (drop 3 content) ''---'' (Some 1)"
    by (simp add: py_split.simps [of content])
  also have "py_split (drop 3 content) ''---'' (Some 1) = fm # py_split rest ''---'' (Some 0)"
    using assms(2) by (simp add: py_split.simps [of "drop 3 content"])
  also have "py_split rest ''---'' (Some 0) = [rest]"
    by (simp add: py_split.simps [of rest])
  finally show ?thesis .
qed

lemma closed_frontmatter:
  assumes "startswith content ''---''" and "split_first (drop 3 content) ''---'' = Some (fm, rest)"
  shows "extract_yaml_frontmatter content =
           fold (\<lambda>line frontmatter. parse_line frontmatter line)
             (py_split (strip_ws fm) [newline] None) []"
  using assms(1) by (simp add: extract_yaml_frontmatter_def closed_parts [OF assms])

section \<open>The claims\<close>

text \<open>
  C1.  A target that some note mentions and that is not among the scanned filenames
  is a key of \<open>broken_links\<close>, with the value it has in \<open>all_links\<close>: the display
  texts of its mentions, each kept where it first occurs.
\<close>

theorem broken_target_recorded:
  assumes "t \<in> targets (mentions (listing dir))"
    and "t \<notin> set (map fst (listing dir))"
  shows "dict_get (broken_links (scan_notes dir)) t = dict_get (all_links (scan_notes dir)) t \<and>
         dict_get (all_links (scan_notes dir)) t =
           Some (first_occurrences (texts_for t (mentions (listing dir))))"
  using assms by (simp add: lookup_broken_links lookup_all_links list_fromkeys_first)

theorem broken_target_recorded_witness:
  "dict_get (broken_links (scan_notes (Some
      [(''A.md'', Inr ''[Gamma](c.md) [Gamma2](c.md) [Gamma](c.md) [Z](A.md)'')]))) ''c.md'' =
   Some [''Gamma'', ''Gamma2'']"
proof -
  let ?dir = "Some [(''A.md'', Inr ''[Gamma](c.md) [Gamma2](c.md) [Gamma](c.md) [Z](A.md)'')]"
  have h1: "''c.md'' \<in> targets (mentions (listing ?dir))"
    by code_simp
  have h2: "''c.md'' \<notin> set (map fst (listing ?dir))"
    by code_simp
  have v: "first_occurrences (texts_for ''c.md'' (mentions (listing ?dir))) = [''Gamma'', ''Gamma2'']"
    by code_simp
  from broken_target_recorded [OF h1 h2] v show ?thesis
    by simp
qed

text \<open>
  C2.  The keys of \<open>all_links\<close> are the targets mentioned anywhere; the keys of
  \<open>broken_links\<close> are among them, and none of them is a filename stored in
  \<open>existing_notes\<close>.
\<close>

theorem scan_key_sets:
  "set (dict_keys (all_links (scan_notes dir))) = targets (mentions (listing dir)) \<and>
   set (dict_keys (broken_links (scan_notes dir))) \<subseteq> set (dict_keys (all_links (scan_notes dir))) \<and>
   set (dict_keys (broken_links (scan_notes dir))) \<inter>
     set (dict_values (existing_notes (scan_notes dir))) = {}"
proof -
  have "set (dict_keys (broken_links (scan_notes dir))) \<inter> set (map fst (listing dir)) = {}"
    by (auto simp: keys_broken_links)
  with values_existing_notes [of dir]
  have "set (dict_keys (broken_links (scan_notes dir))) \<inter>
      set (dict_values (existing_notes (scan_notes dir))) = {}"
    by blast
  moreover have "set (dict_keys (broken_links (scan_notes dir))) \<subseteq>
      set (dict_keys (all_links (scan_notes dir)))"
    by (auto simp: keys_broken_links keys_all_links)
  ultimately show ?thesis
    by (simp add: keys_all_links)
qed

text \<open>
  C3.  In the structured artifact, \<open>total_broken_links\<close> is the number of keys of its
  \<open>broken_links\<close> map and \<open>total_broken_link_mentions\<close> is the sum of the lengths
  of its values; the keys are distinct, so the counts derived from the map, key by
  key, are the stored ones.
\<close>

theorem statistics_from_broken_links:
  "json_broken_links (build_json dir) = broken_links (scan_notes dir) \<and>
   distinct (dict_keys (json_broken_links (build_json dir))) \<and>
   total_broken_links (json_statistics (build_json dir)) =
     length (json_broken_links (build_json dir)) \<and>
   total_broken_links (json_statistics (build_json dir)) =
     card (set (dict_keys (json_broken_links (build_json dir)))) \<and>
   total_broken_link_mentions (json_statistics (build_json dir)) =
     sum_list (map length (dict_values (json_broken_links (build_json dir)))) \<and>
   total_broken_link_mentions (json_statistics (build_json dir)) =
     (\<Sum>k \<in> set (dict_keys (json_broken_links (build_json dir))).
        length (get_list (json_broken_links (build_json dir)) k))"
proof -
  have b: "json_broken_links (build_json dir) = broken_links (scan_notes dir)"
    by (simp add: build_json_def generate_json_mapping_def Let_def)
  have d: "distinct (dict_keys (broken_links (scan_notes dir)))"
    by (rule distinct_keys_broken_links)
  have l: "total_broken_links (json_statistics (build_json dir)) =
      length (broken_links (scan_notes dir))"
    by (simp add: build_json_def generate_json_mapping_def Let_def)
  have c: "card (set (dict_keys (broken_links (scan_notes dir)))) =
      length (broken_links (scan_notes dir))"
    using distinct_card [OF d] by simp
  have m: "total_broken_link_mentions (json_statistics (build_json dir)) =
      sum_list (map length (dict_values (broken_links (scan_notes dir))))"
    by (simp add: build_json_def generate_json_mapping_def Let_def)
  show ?thesis
    using d l c m sum_list_values [OF d] by (simp add: b)
qed

text \<open>
  C4.  A file with the mentions \<^verbatim>\<open>[A](./x.md)\<close> and \<^verbatim>\<open>[B](x.md)\<close>, in that order and
  with no other \<^verbatim>\<open>[\<close> around them, has the links \<open>(A, x.md)\<close> and \<open>(B, x.md)\<close>.
  When no other file of the directory mentions \<open>x.md\<close>, the scan records
  \<open>all_links["x.md"] = ["A", "B"]\<close> and \<open>files_linking_to["x.md"]\<close> is the file's
  name.
\<close>

theorem two_mentions_of_x_md:
  assumes "content = pre @ ''[A](./x.md)'' @ mid @ ''[B](x.md)'' @ post"
    and "CHR ''['' \<notin> set pre" and "CHR ''['' \<notin> set mid" and "CHR ''['' \<notin> set post"
    and "''x.md'' \<notin> targets (mentions (before @ after))"
  shows "extract_links content = [(''A'', ''x.md''), (''B'', ''x.md'')] \<and>
         dict_get (all_links (scan_notes (Some (before @ [(fn, Inr content)] @ after)))) ''x.md'' =
           Some [''A'', ''B''] \<and>
         dict_get (files_linking_to (scan_notes (Some (before @ [(fn, Inr content)] @ after))))
           ''x.md'' = Some [fn]"
proof -
  have links: "extract_links content = [(''A'', ''x.md''), (''B'', ''x.md'')]"
    unfolding assms(1) using assms(2-4) by (rule extract_links_A_B)
  then have fm: "file_mentions (fn, Inr content) = [(fn, ''A'', ''x.md''), (fn, ''B'', ''x.md'')]"
    by (simp add: file_mentions_def)
  from assms(5) have nb: "''x.md'' \<notin> targets (mentions before)"
    and na: "''x.md'' \<notin> targets (mentions after)"
    by simp_all
  then have tb: "texts_for ''x.md'' (mentions before) = []"
    and ta: "texts_for ''x.md'' (mentions after) = []"
    and sb: "sources_for ''x.md'' (mentions before) = {}"
    and sa: "sources_for ''x.md'' (mentions after) = {}"
    by (simp_all add: texts_for_Nil_iff sources_for_empty_iff)
  let ?files = "before @ [(fn, Inr content)] @ after"
  have t: "texts_for ''x.md'' (mentions ?files) = [''A'', ''B'']"
    by (simp add: fm tb ta)
  have s: "sources_for ''x.md'' (mentions ?files) = {fn}"
    by (simp add: fm sb sa)
  have tg: "''x.md'' \<in> targets (mentions ?files)"
    by (simp add: fm)
  have "dict_get (all_links (scan_notes (Some ?files))) ''x.md'' = Some [''A'', ''B'']"
    using tg by (simp only: lookup_all_links listing_Some t list_fromkeys_A_B if_True)
  moreover have "dict_get (files_linking_to (scan_notes (Some ?files))) ''x.md'' = Some [fn]"
    using tg by (simp only: lookup_files_linking_to listing_Some s if_True) simp
  ultimately show ?thesis
    using links by simp
qed

theorem two_mentions_of_x_md_witness:
  "extract_links ''see [A](./x.md) and [B](x.md).'' = [(''A'', ''x.md''), (''B'', ''x.md'')] \<and>
   dict_get (all_links (scan_notes (Some
     [(''n.md'', Inr ''see [A](./x.md) and [B](x.md).''), (''b.md'', Inr ''[N](n.md)'')]))) ''x.md'' =
     Some [''A'', ''B''] \<and>
   dict_get (files_linking_to (scan_notes (Some
     [(''n.md'', Inr ''see [A](./x.md) and [B](x.md).''), (''b.md'', Inr ''[N](n.md)'')]))) ''x.md'' =
     Some [''n.md'']"
proof -
  have c: "''see [A](./x.md) and [B](x.md).'' = ''see '' @ ''[A](./x.md)'' @ '' and '' @ ''[B](x.md)'' @ ''.''"
    by simp
  have p1: "CHR ''['' \<notin> set ''see ''" by simp
  have p2: "CHR ''['' \<notin> set '' and ''" by simp
  have p3: "CHR ''['' \<notin> set ''.''" by simp
  have o: "''x.md'' \<notin> targets (mentions ([] @ [(''b.md'', Inr ''[N](n.md)'')]))"
    by code_simp
  from two_mentions_of_x_md [OF c p1 p2 p3 o, of "''n.md''"] show ?thesis
    by simp
qed




text \<open>
  C6, as the code has it.  The delimiter is the three characters \<^verbatim>\<open>---\<close> wherever
  they stand, not a line.  For a note that begins with them: when they do not occur
  again after the first three characters, there is no front-matter and the title is
  \<open>""\<close>, and scanning the file runs the loop over the links of its whole content;
  when they do occur again, what stands before their first occurrence is parsed as
  the front-matter.  Either way every link of the content is in the result of the
  scan: its text in \<open>all_links\<close> and the file in \<open>files_linking_to\<close>, under its
  target.
\<close>

theorem unclosed_front_matter_still_scanned:
  assumes "startswith content ''---''"
  shows "(\<not> (\<exists>a b. drop 3 content = a @ ''---'' @ b) \<longrightarrow>
            extract_yaml_frontmatter content = [] \<and>
            get_title content = [] \<and>
            scan_file E (fn, Inr content) g = fold (add_link E fn) (extract_links content) g) \<and>
         (split_first (drop 3 content) ''---'' = Some (fm, rest) \<longrightarrow>
            drop 3 content = fm @ ''---'' @ rest \<and>
            extract_yaml_frontmatter content =
              fold (\<lambda>line frontmatter. parse_line frontmatter line)
                (py_split (strip_ws fm) [newline] None) []) \<and>
         ((fn, Inr content) \<in> set (listing dir) \<and> (lt, tgt) \<in> set (extract_links content) \<longrightarrow>
            lt \<in> set (get_list (all_links (scan_notes dir)) tgt) \<and>
            fn \<in> set (get_list (files_linking_to (scan_notes dir)) tgt))"
proof (intro conjI impI)
  assume no: "\<not> (\<exists>a b. drop 3 content = a @ ''---'' @ b)"
  then have "split_first (drop 3 content) ''---'' = None"
    by (simp add: split_first_None_iff)
  with assms show fm: "extract_yaml_frontmatter content = []"
    by (rule unclosed_frontmatter)
  then show title: "get_title content = []"
    by (simp add: get_title_def dict_get_def)
  then show "scan_file E (fn, Inr content) g = fold (add_link E fn) (extract_links content) g"
    by (simp add: scan_file_def)
next
  assume s: "split_first (drop 3 content) ''---'' = Some (fm, rest)"
  then show "drop 3 content = fm @ ''---'' @ rest"
    by (rule split_first_Some)
  from assms s show "extract_yaml_frontmatter content =
      fold (\<lambda>line frontmatter. parse_line frontmatter line)
        (py_split (strip_ws fm) [newline] None) []"
    by (rule closed_frontmatter)
next
  assume l: "(fn, Inr content) \<in> set (listing dir) \<and> (lt, tgt) \<in> set (extract_links content)"
  then have "(fn, lt, tgt) \<in> set (file_mentions (fn, Inr content))"
    by (force simp: file_mentions_def)
  with l have m: "(fn, lt, tgt) \<in> set (mentions (listing dir))"
    using file_mention_in_mentions by blast
  show "lt \<in> set (get_list (all_links (scan_notes dir)) tgt)"
    using in_texts_for [OF m] by (simp add: get_all_links)
  show "fn \<in> set (get_list (files_linking_to (scan_notes dir)) tgt)"
    using in_sources_for [OF m] in_targets [OF m] by (simp add: get_files_linking_to)
qed

theorem unclosed_front_matter_still_scanned_witness:
  "get_title (''---'' @ [newline] @ ''title: T'' @ [newline] @ ''[A](a.md)'') = [] \<and>
   scan_notes (Some [(''n.md'', Inr (''---'' @ [newline] @ ''title: T'' @ [newline] @ ''[A](a.md)''))]) =
     \<lparr>existing_notes = [], all_links = [(''a.md'', [''A''])], broken_links = [(''a.md'', [''A''])],
      files_linking_to = [(''a.md'', [''n.md''])], printed = []\<rparr> \<and>
   ''A'' \<in> set (get_list (all_links (scan_notes
     (Some [(''n.md'', Inr (''---'' @ [newline] @ ''title: T'' @ [newline] @ ''[A](a.md)''))]))) ''a.md'') \<and>
   extract_yaml_frontmatter (''---'' @ [newline] @ ''title: T'' @ [newline, newline] @ ''| a | b |''
      @ [newline] @ ''|---|---|'' @ [newline] @ ''[A](a.md)'') = [(''title'', ''T'')]"
proof -
  let ?c = "''---'' @ [newline] @ ''title: T'' @ [newline] @ ''[A](a.md)''"
  let ?dir = "Some [(''n.md'', Inr ?c)]"
  let ?t = "''---'' @ [newline] @ ''title: T'' @ [newline, newline] @ ''| a | b |''
      @ [newline] @ ''|---|---|'' @ [newline] @ ''[A](a.md)''"
  let ?fm = "[newline] @ ''title: T'' @ [newline, newline] @ ''| a | b |'' @ [newline] @ ''|''"
  let ?rest = "''|---|'' @ [newline] @ ''[A](a.md)''"
  have ne: "''---'' \<noteq> []"
    by simp
  have h1: "startswith ?c ''---''"
    by code_simp
  have "split_first (drop 3 ?c) ''---'' = None"
    by code_simp
  then have h2: "\<not> (\<exists>a b. drop 3 ?c = a @ ''---'' @ b)"
    by (rule split_first_None_iff [OF ne, THEN iffD1])
  have h3: "(''n.md'', Inr ?c) \<in> set (listing ?dir) \<and> (''A'', ''a.md'') \<in> set (extract_links ?c)"
    by code_simp
  have v: "scan_notes ?dir =
     \<lparr>existing_notes = [], all_links = [(''a.md'', [''A''])], broken_links = [(''a.md'', [''A''])],
      files_linking_to = [(''a.md'', [''n.md''])], printed = []\<rparr>"
    by code_simp
  have t1: "startswith ?t ''---''"
    by code_simp
  have t2: "split_first (drop 3 ?t) ''---'' = Some (?fm, ?rest)"
    by code_simp
  have t3: "fold (\<lambda>line frontmatter. parse_line frontmatter line)
      (py_split (strip_ws ?fm) [newline] None) [] = [(''title'', ''T'')]"
    by code_simp
  note c = unclosed_front_matter_still_scanned [OF h1, of _ "''n.md''" _ _ _ ?dir "''A''" "''a.md''"]
  note t = unclosed_front_matter_still_scanned [OF t1, of _ _ _ ?fm ?rest]
  from c h2 have "get_title ?c = []"
    by blast
  moreover from c h3 have "''A'' \<in> set (get_list (all_links (scan_notes ?dir)) ''a.md'')"
    by blast
  moreover from t t2 t3 have "extract_yaml_frontmatter ?t = [(''title'', ''T'')]"
    by simp
  ultimately show ?thesis
    using v by simp
qed

text \<open>
  C6 as stated fails: a note that opens with \<^verbatim>\<open>---\<close>, has no closing delimiter line,
  and has a table separator \<^verbatim>\<open>|---|---|\<close> in its body gets the title \<open>T\<close>.
\<close>

theorem unclosed_front_matter_counterexample:
  "startswith (''---'' @ [newline] @ ''title: T'' @ [newline, newline] @ ''| a | b |''
      @ [newline] @ ''|---|---|'' @ [newline] @ ''[A](a.md)'') ''---'' \<and>
   \<not> spec_has_closing_delimiter (''---'' @ [newline] @ ''title: T'' @ [newline, newline] @ ''| a | b |''
      @ [newline] @ ''|---|---|'' @ [newline] @ ''[A](a.md)'') \<and>
   get_title (''---'' @ [newline] @ ''title: T'' @ [newline, newline] @ ''| a | b |''
      @ [newline] @ ''|---|---|'' @ [newline] @ ''[A](a.md)'') = ''T'' \<and>
   get_title (''---'' @ [newline] @ ''title: T'' @ [newline, newline] @ ''| a | b |''
      @ [newline] @ ''|---|---|'' @ [newline] @ ''[A](a.md)'') \<noteq> []"
  by code_simp

text \<open>
  C7.  A file whose read fails does not stop the scan.  The error is printed, in scan
  order among the other failures; the four maps are those of the scan in which that
  file is listed with no content.  Three of them are also those of the scan of the
  listing without the file; \<open>broken_links\<close> differs from that scan only at the
  file's own name, which is not a key.  Nothing is assumed of the other files or of
  the position of the failing one.
\<close>

theorem read_failure_skipped:
  "existing_notes (scan_notes (Some (pre @ [(fn, Inl e)] @ post))) =
     existing_notes (scan_notes (Some (pre @ [(fn, Inr [])] @ post))) \<and>
   all_links (scan_notes (Some (pre @ [(fn, Inl e)] @ post))) =
     all_links (scan_notes (Some (pre @ [(fn, Inr [])] @ post))) \<and>
   broken_links (scan_notes (Some (pre @ [(fn, Inl e)] @ post))) =
     broken_links (scan_notes (Some (pre @ [(fn, Inr [])] @ post))) \<and>
   files_linking_to (scan_notes (Some (pre @ [(fn, Inl e)] @ post))) =
     files_linking_to (scan_notes (Some (pre @ [(fn, Inr [])] @ post))) \<and>
   printed (scan_notes (Some (pre @ [(fn, Inl e)] @ post))) =
     printed (scan_notes (Some pre)) @ [(fn, e)] @ printed (scan_notes (Some post)) \<and>
   existing_notes (scan_notes (Some (pre @ [(fn, Inl e)] @ post))) =
     existing_notes (scan_notes (Some (pre @ post))) \<and>
   all_links (scan_notes (Some (pre @ [(fn, Inl e)] @ post))) =
     all_links (scan_notes (Some (pre @ post))) \<and>
   files_linking_to (scan_notes (Some (pre @ [(fn, Inl e)] @ post))) =
     files_linking_to (scan_notes (Some (pre @ post))) \<and>
   dict_get (broken_links (scan_notes (Some (pre @ [(fn, Inl e)] @ post)))) t =
     (if t = fn then None else dict_get (broken_links (scan_notes (Some (pre @ post)))) t)"
proof -
  let ?failed = "Some (pre @ [(fn, Inl e)] @ post)"
  let ?blank = "Some (pre @ [(fn, Inr [])] @ post)"
  let ?without = "Some (pre @ post)"
  have m1: "mentions (pre @ [(fn, Inl e)] @ post) = mentions (pre @ post)"
    by simp
  have m2: "mentions (pre @ [(fn, Inr [])] @ post) = mentions (pre @ post)"
    by simp
  have n: "map fst (pre @ [(fn, Inl e)] @ post) = map fst (pre @ [(fn, Inr [])] @ post)"
    by simp
  have en1: "existing_notes (scan_notes ?failed) = existing_notes (scan_notes ?without)"
    by (simp add: scan_existing_notes)
  have en2: "existing_notes (scan_notes ?blank) = existing_notes (scan_notes ?without)"
    by (simp add: scan_existing_notes)
  have al1: "all_links (scan_notes ?failed) = all_links (scan_notes ?without)"
    by (simp only: scan_all_links m1 listing_Some)
  have al2: "all_links (scan_notes ?blank) = all_links (scan_notes ?without)"
    by (simp only: scan_all_links m2 listing_Some)
  have fl1: "files_linking_to (scan_notes ?failed) = files_linking_to (scan_notes ?without)"
    by (simp only: scan_files_linking_to m1 listing_Some)
  have fl2: "files_linking_to (scan_notes ?blank) = files_linking_to (scan_notes ?without)"
    by (simp only: scan_files_linking_to m2 listing_Some)
  have bl: "broken_links (scan_notes ?failed) = broken_links (scan_notes ?blank)"
    by (simp only: scan_broken_links listing_Some m1 m2 n)
  have pr: "printed (scan_notes ?failed) =
      printed (scan_notes (Some pre)) @ [(fn, e)] @ printed (scan_notes (Some post))"
    by (simp add: scan_printed)
  have lk: "dict_get (broken_links (scan_notes ?failed)) t =
      (if t = fn then None else dict_get (broken_links (scan_notes ?without)) t)"
    by (simp only: lookup_broken_links m1 listing_Some) auto
  show ?thesis
    using en1 en2 al1 al2 fl1 fl2 bl pr lk by simp
qed

text \<open>
  C8.  When the note directory does not exist, the scan returns the empty graph: the
  four maps are empty, nothing is printed, and the four statistics are zero.
\<close>

theorem scan_notes_missing_directory:
  "existing_notes (scan_notes None) = [] \<and>
   all_links (scan_notes None) = [] \<and>
   broken_links (scan_notes None) = [] \<and>
   files_linking_to (scan_notes None) = [] \<and>
   printed (scan_notes None) = [] \<and>
   json_statistics (build_json None) =
     \<lparr>total_existing_notes = 0, total_linked_files = 0, total_broken_links = 0,
      total_broken_link_mentions = 0\<rparr>"
  by (simp add: scan_notes_def build_json_def generate_json_mapping_def empty_graph_def
      dedup_values_def dict_keys_def dict_values_def)

text \<open>
  C9.  \<open>all_links\<close> and \<open>files_linking_to\<close> have the same keys (in the same order),
  and no value of either is empty.
\<close>

theorem all_links_files_linking_to_same_keys:
  "dict_keys (all_links (scan_notes dir)) = dict_keys (files_linking_to (scan_notes dir)) \<and>
   set (dict_keys (all_links (scan_notes dir))) = set (dict_keys (files_linking_to (scan_notes dir))) \<and>
   [] \<notin> set (dict_values (all_links (scan_notes dir))) \<and>
   [] \<notin> set (dict_values (files_linking_to (scan_notes dir)))"
proof -
  have "dict_keys (all_links (scan_notes dir)) = dict_keys (files_linking_to (scan_notes dir))"
    by (simp add: scan_all_links scan_files_linking_to keys_fold_app_ins)
  then show ?thesis
    by (simp add: all_links_values_nonempty files_linking_to_values_nonempty)
qed

text \<open>
  C10.  A file that is listed but cannot be read still counts as existing: its name
  is never a key of \<open>broken_links\<close>, whatever mentions it; and scanning it changes
  none of the four maps, it only prints the error.
\<close>

theorem unreadable_file_exists:
  assumes "(fn, Inl e) \<in> set (listing dir)"
  shows "fn \<notin> set (dict_keys (broken_links (scan_notes dir))) \<and>
         dict_get (broken_links (scan_notes dir)) fn = None \<and>
         scan_file E (fn, Inl e) g = g\<lparr>printed := printed g @ [(fn, e)]\<rparr>"
proof -
  from assms have "fn \<in> set (map fst (listing dir))"
    by force
  then show ?thesis
    by (simp add: keys_broken_links lookup_broken_links scan_file_def)
qed

theorem unreadable_file_exists_witness:
  "all_links (scan_notes (Some [(''A.md'', Inr ''[B](b.md) [C](c.md)''), (''b.md'', Inl ''denied'')])) =
     [(''b.md'', [''B'']), (''c.md'', [''C''])] \<and>
   dict_get (broken_links
     (scan_notes (Some [(''A.md'', Inr ''[B](b.md) [C](c.md)''), (''b.md'', Inl ''denied'')]))) ''b.md'' = None \<and>
   dict_get (broken_links
     (scan_notes (Some [(''A.md'', Inr ''[B](b.md) [C](c.md)''), (''b.md'', Inl ''denied'')]))) ''c.md'' = Some [''C'']"
proof -
  let ?dir = "Some [(''A.md'', Inr ''[B](b.md) [C](c.md)''), (''b.md'', Inl ''denied'')]"
  have h: "(''b.md'', Inl ''denied'') \<in> set (listing ?dir)"
    by simp
  have a: "all_links (scan_notes ?dir) = [(''b.md'', [''B'']), (''c.md'', [''C''])]"
    by code_simp
  have c: "dict_get (broken_links (scan_notes ?dir)) ''c.md'' = Some [''C'']"
    by code_simp
  from unreadable_file_exists [OF h] a c show ?thesis
    by simp
qed

end
